theory Spec2Isabelle
  imports Complex_Main
begin

section \<open>Data model\<close>

text \<open>
  The program is \<^verbatim>\<open>src/index.js\<close>. A period is the two-element array
  \<^verbatim>\<open>[startPosition, endPosition]\<close> of the source, in seconds. JavaScript numbers are
  IEEE doubles; timestamps are modelled as \<^typ>\<open>real\<close>, so the rounding of double
  arithmetic is abstracted away.

  A JavaScript string is a sequence of UTF-16 code units; a text is modelled as the list
  of its code units, and \<open>str\<close> turns a literal into such a list.
\<close>

type_synonym period = "real \<times> real"

type_synonym jstring = "nat list"

definition str :: "string \<Rightarrow> jstring" where
  "str s = map of_char s"

text \<open>The tuning constants of lines 10-12.\<close>

definition minimumNotSilentDuration :: real where
  "minimumNotSilentDuration = 1"

definition remainingSilentDuration :: real where
  "remainingSilentDuration = 0.4"

definition minimumSilentDuration :: real where
  "minimumSilentDuration = 0.2"

section \<open>The interval planner (lines 81-91 of \<^verbatim>\<open>removeSilentFromVideoFile\<close>)\<close>

text \<open>
  The loop keeps two mutable variables, \<^verbatim>\<open>notSilentPeriodList\<close> and
  \<^verbatim>\<open>lastEndPosition\<close>; the state is that pair, and the loop body is one step on it.
\<close>

type_synonym planState = "period list \<times> real"

definition planStep :: "planState \<Rightarrow> period \<Rightarrow> planState" where
  "planStep st p =
     (case st of (notSilentPeriodList, lastEndPosition) \<Rightarrow>
      case p of (startPosition, endPosition) \<Rightarrow>
        (if startPosition - lastEndPosition > minimumNotSilentDuration
         then notSilentPeriodList @ [(lastEndPosition, startPosition)]
         else notSilentPeriodList,
         endPosition))"

definition planNotSilentPeriodList :: "period list \<Rightarrow> real \<Rightarrow> period list" where
  "planNotSilentPeriodList silentPeriodList videoDuration =
     (case foldl planStep ([], 0) silentPeriodList of
        (notSilentPeriodList, lastEndPosition) \<Rightarrow>
          if videoDuration - lastEndPosition > minimumNotSilentDuration
          then notSilentPeriodList @ [(lastEndPosition, videoDuration)]
          else notSilentPeriodList)"

text \<open>
  The cursor algorithm in the words of the specification: starting from a cursor, each
  silence interval \<open>(s, e)\<close> emits \<open>(cursor, s)\<close> exactly when
  \<open>s - cursor > minKeepDuration\<close> and moves the cursor to \<open>e\<close>; at the end
  \<open>(cursor, D)\<close> is emitted exactly when \<open>D - cursor > minKeepDuration\<close>.
\<close>

fun cursorPlan :: "real \<Rightarrow> period list \<Rightarrow> real \<Rightarrow> period list" where
  "cursorPlan cursor [] D =
     (if D - cursor > minimumNotSilentDuration then [(cursor, D)] else [])"
| "cursorPlan cursor ((s, e) # rest) D =
     (if s - cursor > minimumNotSilentDuration then [(cursor, s)] else [])
       @ cursorPlan e rest D"

section \<open>The padding pass (\<^verbatim>\<open>adjustNotSilentPeriodList\<close>, lines 191-203)\<close>

text \<open>
  The \<^verbatim>\<open>for\<close> loop runs \<open>i\<close> over \<open>0, ..., periodList.length - 1\<close> and pushes one
  adjusted period per index.
\<close>

definition adjustPeriod :: "period list \<Rightarrow> nat \<Rightarrow> period" where
  "adjustPeriod periodList i =
     (case periodList ! i of (startPosition, endPosition) \<Rightarrow>
        (if i = 0 then startPosition
         else startPosition - remainingSilentDuration / 2,
         if i = length periodList - 1 then endPosition
         else endPosition + remainingSilentDuration / 2))"

definition adjustNotSilentPeriodList :: "period list \<Rightarrow> period list" where
  "adjustNotSilentPeriodList periodList =
     fold (\<lambda>i adjustedList. adjustedList @ [adjustPeriod periodList i])
       [0..<length periodList] []"

section \<open>Spans, order and gaps\<close>

text \<open>
  The vocabulary of the statements about the planner. An interval \<open>(a, b)\<close> covers the
  half-open span \<open>{a..<b}\<close>, so that a silence span and the keep span that follows it
  share no instant. A list of intervals is \<open>chained\<close> when it is time-sorted and
  non-overlapping: every interval starts no later than it ends, and ends no later than
  the next one starts. The gaps are the spans the cursor of the planner walks over: from
  the cursor to the start of each silence interval, and from the last cursor to the
  duration.
\<close>

definition span :: "period \<Rightarrow> real set" where
  "span p = {fst p ..< snd p}"

fun chained :: "period list \<Rightarrow> bool" where
  "chained [] = True"
| "chained [p] = (fst p \<le> snd p)"
| "chained (p # q # r) = (fst p \<le> snd p \<and> snd p \<le> fst q \<and> chained (q # r))"

definition withinDuration :: "real \<Rightarrow> period list \<Rightarrow> bool" where
  "withinDuration D ps = list_all (\<lambda>p. 0 \<le> fst p \<and> snd p \<le> D) ps"

fun gaps :: "real \<Rightarrow> period list \<Rightarrow> real \<Rightarrow> period list" where
  "gaps cursor [] D = [(cursor, D)]"
| "gaps cursor ((s, e) # rest) D = (cursor, s) # gaps e rest D"

definition shortGaps :: "period list \<Rightarrow> real \<Rightarrow> period list" where
  "shortGaps sil D = filter (\<lambda>g. snd g - fst g < minimumNotSilentDuration) (gaps 0 sil D)"

definition droppedGaps :: "period list \<Rightarrow> real \<Rightarrow> period list" where
  "droppedGaps sil D = filter (\<lambda>g. snd g - fst g \<le> minimumNotSilentDuration) (gaps 0 sil D)"

definition spans :: "period list \<Rightarrow> real set" where
  "spans ps = \<Union> (span ` set ps)"

fun linked :: "real \<Rightarrow> period list \<Rightarrow> bool" where
  "linked c [] = True"
| "linked c ((s, e) # r) = (c \<le> s \<and> s \<le> e \<and> linked e r)"

fun okFrom :: "real \<Rightarrow> period list \<Rightarrow> real \<Rightarrow> bool" where
  "okFrom c [] D = True"
| "okFrom c ((s, e) # r) D = (c \<le> s \<and> s \<le> e \<and> e \<le> D \<and> okFrom e r D)"


section \<open>Properties of the planner\<close>

lemma foldl_planStep_cursorPlan:
  "(case foldl planStep (acc, c) sil of
      (ns, l) \<Rightarrow> if D - l > minimumNotSilentDuration then ns @ [(l, D)] else ns)
   = acc @ cursorPlan c sil D"
proof (induction sil arbitrary: acc c)
  case Nil
  show ?case by simp
next
  case (Cons p sil)
  obtain s e where p: "p = (s, e)" by (cases p)
  show ?case
    unfolding p foldl_Cons
    by (simp add: planStep_def Cons.IH)
qed

lemma plan_eq_cursorPlan:
  "planNotSilentPeriodList sil D = cursorPlan 0 sil D"
  unfolding planNotSilentPeriodList_def
  using foldl_planStep_cursorPlan [of D "[]" 0 sil] by simp

text \<open>
  Claim C2. The planner of the source is the cursor algorithm of the specification,
  started at cursor 0; and with the minimum keep duration 1, the silence intervals
  \<open>[(2, 3)]\<close> and the duration 10 it yields exactly \<open>[(0, 2), (3, 10)]\<close> before padding.
\<close>

theorem planner_is_cursor_algorithm:
  "planNotSilentPeriodList sil D = cursorPlan 0 sil D
   \<and> minimumNotSilentDuration = 1
   \<and> planNotSilentPeriodList [(2, 3)] 10 = [(0, 2), (3, 10)]"
proof -
  have a: "planNotSilentPeriodList sil D = cursorPlan 0 sil D"
    by (rule plan_eq_cursorPlan)
  have b: "planNotSilentPeriodList [(2, 3)] 10 = [(0, 2), (3, 10)]"
    by (simp add: planNotSilentPeriodList_def planStep_def minimumNotSilentDuration_def)
  show ?thesis using a b by (simp add: minimumNotSilentDuration_def)
qed

section \<open>The planner's output is sorted, non-overlapping and covers the timeline\<close>

lemma spans_simps [simp]:
  "spans [] = {}" "spans (p # ps) = span p \<union> spans ps" "spans (ps @ qs) = spans ps \<union> spans qs"
  by (auto simp: spans_def)

lemma cursorPlan_filter:
  "cursorPlan c sil D = filter (\<lambda>g. snd g - fst g > minimumNotSilentDuration) (gaps c sil D)"
  by (induction c sil D rule: cursorPlan.induct) auto

lemma chained_okFrom:
  "chained sil \<Longrightarrow> withinDuration D sil \<Longrightarrow> c \<le> (case sil of [] \<Rightarrow> c | p # _ \<Rightarrow> fst p) \<Longrightarrow> okFrom c sil D"
proof (induction c sil D rule: okFrom.induct)
  case (1 c D)
  then show ?case by simp
next
  case (2 c s e r D)
  then show ?case by (cases r) (auto simp: withinDuration_def)
qed

lemma dropped_subset:
  "okFrom c sil D \<Longrightarrow> spans (filter P (gaps c sil D)) \<subseteq> {c ..< D}"
proof (induction c sil D rule: okFrom.induct)
  case (1 c D)
  then show ?case by (auto simp: span_def)
next
  case (2 c s e r D)
  then have "spans (filter P (gaps e r D)) \<subseteq> {e ..< D}" by simp
  with 2 show ?case by (auto simp: span_def)
qed

lemma cover_from:
  "okFrom c sil D \<Longrightarrow>
   spans (cursorPlan c sil D) \<union> spans sil
   = {c ..< D} - spans (filter (\<lambda>g. snd g - fst g \<le> minimumNotSilentDuration) (gaps c sil D))"
proof (induction c sil D rule: okFrom.induct)
  case (1 c D)
  then show ?case by (auto simp: span_def)
next
  case (2 c s e r D)
  let ?dr = "spans (filter (\<lambda>g. snd g - fst g \<le> minimumNotSilentDuration) (gaps e r D))"
  have ih: "spans (cursorPlan e r D) \<union> spans r = {e ..< D} - ?dr" using 2 by simp
  have sub: "?dr \<subseteq> {e ..< D}" using 2 dropped_subset by simp
  have ord: "c \<le> s" "s \<le> e" "e \<le> D" using 2 by auto
  show ?case
  proof (cases "s - c > minimumNotSilentDuration")
    case True
    have "spans (cursorPlan c ((s, e) # r) D) \<union> spans ((s, e) # r)
          = {c ..< s} \<union> {s ..< e} \<union> (spans (cursorPlan e r D) \<union> spans r)"
      using True by (auto simp: span_def)
    also have "\<dots> = {c ..< s} \<union> {s ..< e} \<union> ({e ..< D} - ?dr)" by (simp only: ih)
    also have "\<dots> = {c ..< D} - ?dr" using sub ord by auto
    finally show ?thesis using True by (simp add: span_def)
  next
    case False
    have "spans (cursorPlan c ((s, e) # r) D) \<union> spans ((s, e) # r)
          = {s ..< e} \<union> (spans (cursorPlan e r D) \<union> spans r)"
      using False by (auto simp: span_def)
    also have "\<dots> = {s ..< e} \<union> ({e ..< D} - ?dr)" by (simp only: ih)
    also have "\<dots> = {c ..< D} - ({c ..< s} \<union> ?dr)" using sub ord by auto
    finally show ?thesis using False by (simp add: span_def)
  qed
qed

lemma chained_Cons:
  "chained (p # ps) = (fst p \<le> snd p \<and> (\<forall>q \<in> set (take 1 ps). snd p \<le> fst q) \<and> chained ps)"
  by (cases ps) auto

lemma chained_tl: "chained (p # ps) \<Longrightarrow> chained ps"
  by (cases ps) auto

lemma chained_hd: "chained (p # ps) \<Longrightarrow> fst p \<le> snd p"
  by (cases ps) auto

lemma chained_tail_bound:
  "chained (p # ps) \<Longrightarrow> q \<in> set ps \<Longrightarrow> snd p \<le> fst q"
proof (induction ps arbitrary: p)
  case Nil
  then show ?case by simp
next
  case (Cons a ps)
  have pa: "snd p \<le> fst a" and ca: "chained (a # ps)" using Cons.prems(1) by auto
  show ?case
  proof (cases "q = a")
    case True
    then show ?thesis using pa by simp
  next
    case False
    then have "q \<in> set ps" using Cons.prems(2) by simp
    then have "snd a \<le> fst q" using Cons.IH ca by blast
    moreover have "fst a \<le> snd a" using ca by (rule chained_hd)
    ultimately show ?thesis using pa by linarith
  qed
qed

lemma chained_pairwise:
  "chained ps \<Longrightarrow> i < j \<Longrightarrow> j < length ps \<Longrightarrow> snd (ps ! i) \<le> fst (ps ! j)"
proof (induction ps arbitrary: i j)
  case Nil
  then show ?case by simp
next
  case (Cons p ps)
  obtain j' where j: "j = Suc j'" using Cons.prems(2) by (cases j) auto
  have j'len: "j' < length ps" using Cons.prems(3) j by simp
  show ?case
  proof (cases i)
    case 0
    have "ps ! j' \<in> set ps" using j'len by simp
    then show ?thesis using chained_tail_bound [OF Cons.prems(1)] 0 j by simp
  next
    case (Suc i')
    have "snd (ps ! i') \<le> fst (ps ! j')"
      using Cons.IH [of i' j'] chained_tl [OF Cons.prems(1)] Cons.prems(2) j Suc j'len by simp
    then show ?thesis using Suc j by simp
  qed
qed

lemma chained_sorted_fst: "chained ps \<Longrightarrow> sorted (map fst ps)"
proof (induction ps)
  case Nil
  then show ?case by simp
next
  case (Cons p ps)
  have "\<And>q. q \<in> set ps \<Longrightarrow> fst p \<le> fst q"
    using chained_tail_bound [OF Cons.prems] chained_hd [OF Cons.prems] by force
  then show ?case using Cons.IH chained_tl [OF Cons.prems] by auto
qed

lemma cursorPlan_lower:
  "linked c sil \<Longrightarrow> p \<in> set (cursorPlan c sil D) \<Longrightarrow> c \<le> fst p \<and> fst p \<le> snd p"
proof (induction c sil arbitrary: p rule: linked.induct)
  case (1 c)
  then show ?case by (auto simp: minimumNotSilentDuration_def split: if_splits)
next
  case (2 c s e r)
  have ord: "c \<le> s" "s \<le> e" and ok: "linked e r" using 2 by auto
  from "2.prems"(2) consider (a) "p = (c, s)" "s - c > minimumNotSilentDuration"
    | (b) "p \<in> set (cursorPlan e r D)"
    by (auto split: if_splits)
  then show ?case
  proof cases
    case a
    then show ?thesis using ord by simp
  next
    case b
    then have "e \<le> fst p \<and> fst p \<le> snd p" using "2.IH" ok by blast
    then show ?thesis using ord by linarith
  qed
qed

lemma cursorPlan_chained_linked:
  "linked c sil \<Longrightarrow> chained (cursorPlan c sil D)"
proof (induction c sil rule: linked.induct)
  case (1 c)
  then show ?case by (auto simp: minimumNotSilentDuration_def)
next
  case (2 c s e r)
  have ch: "chained (cursorPlan e r D)" using 2 by simp
  have lo: "\<And>q. q \<in> set (cursorPlan e r D) \<Longrightarrow> e \<le> fst q"
    using 2 cursorPlan_lower by auto
  show ?case
  proof (cases "s - c > minimumNotSilentDuration")
    case True
    have "\<forall>q \<in> set (take 1 (cursorPlan e r D)). s \<le> fst q"
      using lo 2 by (auto dest!: in_set_takeD intro: order_trans)
    then show ?thesis using True ch 2 by (simp add: chained_Cons)
  next
    case False
    then show ?thesis using ch by simp
  qed
qed

lemma chained_linked: "chained ((s, e) # r) \<Longrightarrow> linked e r"
proof (induction r arbitrary: s e)
  case Nil
  show ?case by simp
next
  case (Cons p r)
  obtain s' e' where p: "p = (s', e')" by (cases p)
  have 1: "e \<le> s'" and 2: "chained ((s', e') # r)" using Cons.prems p by auto
  have 3: "s' \<le> e'" using chained_hd [OF 2] by simp
  show ?case using 1 3 Cons.IH [OF 2] p by simp
qed

lemma cursorPlan_chained:
  assumes "chained sil" shows "chained (cursorPlan c sil D)"
proof (cases sil)
  case Nil
  then show ?thesis by (auto simp: minimumNotSilentDuration_def)
next
  case (Cons p r)
  obtain s e where p: "p = (s, e)" by (cases p)
  have se: "s \<le> e" using chained_hd [of p r] assms Cons p by simp
  have li: "linked e r" using chained_linked assms Cons p by blast
  have ch: "chained (cursorPlan e r D)" using li by (rule cursorPlan_chained_linked)
  have lo: "\<And>q. q \<in> set (cursorPlan e r D) \<Longrightarrow> e \<le> fst q"
    using li cursorPlan_lower by blast
  show ?thesis
  proof (cases "s - c > minimumNotSilentDuration")
    case True
    have "\<forall>q \<in> set (take 1 (cursorPlan e r D)). s \<le> fst q"
      using lo se by (auto dest!: in_set_takeD intro: order_trans)
    moreover have "c \<le> s" using True by (simp add: minimumNotSilentDuration_def)
    ultimately show ?thesis using True ch Cons p by (simp add: chained_Cons)
  next
    case False
    then show ?thesis using ch Cons p by simp
  qed
qed

text \<open>
  Claim C1, as stated: for every list of time-sorted, non-overlapping silence intervals
  and every duration, the union of the keep spans and the silence spans is \<open>[0, D]\<close>
  minus the gaps \<^emph>\<open>shorter than\<close> the minimum keep duration. The equation fails in
  three ways.
  \<^item> A gap exactly as long as the minimum: the planner keeps a gap only when it is strictly
    longer (line 84), so with the silence interval \<open>(1, 2)\<close> and duration 10 the gap from
    0 to 1 is neither kept nor shorter than the minimum, and the instants before 1 are
    missing from the union.
  \<^item> A silence interval that ends after the duration: with \<open>(2, 12)\<close> and duration 10
    the instant 11 is in the union and not in \<open>[0, 10]\<close>, whichever gaps are removed.
  \<^item> A silence interval that starts before 0: with \<open>(-3, -1)\<close> and duration 10 the
    instant -2 is in the union and not in \<open>[0, 10]\<close>, whichever gaps are removed.
\<close>

theorem short_gap_cover_counterexample:
  "chained [(1, 2)] \<and> withinDuration 10 [(1, 2)]
   \<and> spans (planNotSilentPeriodList [(1, 2)] 10) \<union> spans [(1, 2)]
       \<noteq> {0 ..< 10} - spans (shortGaps [(1, 2)] 10)
   \<and> chained [(2, 12)]
   \<and> spans (planNotSilentPeriodList [(2, 12)] 10) \<union> spans [(2, 12)]
       \<noteq> {0 ..< 10} - spans (shortGaps [(2, 12)] 10)
   \<and> spans (planNotSilentPeriodList [(2, 12)] 10) \<union> spans [(2, 12)]
       \<noteq> {0 ..< 10} - spans (droppedGaps [(2, 12)] 10)
   \<and> chained [(- 3, - 1)]
   \<and> spans (planNotSilentPeriodList [(- 3, - 1)] 10) \<union> spans [(- 3, - 1)]
       \<noteq> {0 ..< 10} - spans (shortGaps [(- 3, - 1)] 10)
   \<and> spans (planNotSilentPeriodList [(- 3, - 1)] 10) \<union> spans [(- 3, - 1)]
       \<noteq> {0 ..< 10} - spans (droppedGaps [(- 3, - 1)] 10)"
proof -
  have keep: "planNotSilentPeriodList [(1, 2)] 10 = [(2, 10)]"
    by (simp add: planNotSilentPeriodList_def planStep_def minimumNotSilentDuration_def)
  have short: "shortGaps [(1, 2)] 10 = []"
    by (simp add: shortGaps_def minimumNotSilentDuration_def)
  have "(1 / 2 :: real) \<in> {0 ..< 10} - spans (shortGaps [(1, 2)] 10)"
    unfolding short by simp
  moreover have "(1 / 2 :: real) \<notin> spans (planNotSilentPeriodList [(1, 2)] 10) \<union> spans [(1, 2)]"
    unfolding keep by (simp add: span_def)
  ultimately have a: "spans (planNotSilentPeriodList [(1, 2)] 10) \<union> spans [(1, 2)]
       \<noteq> {0 ..< 10} - spans (shortGaps [(1, 2)] 10)"
    by metis
  have in11: "(11 :: real) \<in> spans (planNotSilentPeriodList [(2, 12)] 10) \<union> spans [(2, 12)]"
    by (simp add: span_def)
  have "(11 :: real) \<notin> {0 ..< 10} - spans (shortGaps [(2, 12)] 10)"
    by simp
  with in11 have b': "spans (planNotSilentPeriodList [(2, 12)] 10) \<union> spans [(2, 12)]
       \<noteq> {0 ..< 10} - spans (shortGaps [(2, 12)] 10)"
    by metis
  have "(11 :: real) \<notin> {0 ..< 10} - spans (droppedGaps [(2, 12)] 10)"
    by simp
  with in11 have b: "spans (planNotSilentPeriodList [(2, 12)] 10) \<union> spans [(2, 12)]
       \<noteq> {0 ..< 10} - spans (droppedGaps [(2, 12)] 10)"
    by metis
  have inm2: "(- 2 :: real) \<in> spans (planNotSilentPeriodList [(- 3, - 1)] 10) \<union> spans [(- 3, - 1)]"
    by (simp add: span_def)
  have "(- 2 :: real) \<notin> {0 ..< 10} - spans (shortGaps [(- 3, - 1)] 10)"
    by simp
  with inm2 have c': "spans (planNotSilentPeriodList [(- 3, - 1)] 10) \<union> spans [(- 3, - 1)]
       \<noteq> {0 ..< 10} - spans (shortGaps [(- 3, - 1)] 10)"
    by metis
  have "(- 2 :: real) \<notin> {0 ..< 10} - spans (droppedGaps [(- 3, - 1)] 10)"
    by simp
  with inm2 have c: "spans (planNotSilentPeriodList [(- 3, - 1)] 10) \<union> spans [(- 3, - 1)]
       \<noteq> {0 ..< 10} - spans (droppedGaps [(- 3, - 1)] 10)"
    by metis
  show ?thesis using a b b' c c' by (simp add: withinDuration_def)
qed

text \<open>
  Claim C1, amended. For every list of time-sorted, non-overlapping silence intervals and
  every duration \<open>D\<close>, the keep intervals of the planner (before padding) are sorted in
  non-decreasing time order and no two of them overlap; and when the silence intervals
  lie within \<open>[0, D]\<close>, the union of the keep spans and the silence spans is \<open>[0, D)\<close>
  minus the gaps that are not longer than the minimum keep duration.
\<close>

theorem planner_sorted_disjoint_cover:
  assumes "chained sil"
  shows "sorted (map fst (planNotSilentPeriodList sil D))
    \<and> chained (planNotSilentPeriodList sil D)
    \<and> (\<forall>i j. i < j \<and> j < length (planNotSilentPeriodList sil D) \<longrightarrow>
          snd (planNotSilentPeriodList sil D ! i) \<le> fst (planNotSilentPeriodList sil D ! j))
    \<and> (withinDuration D sil \<longrightarrow>
          spans (planNotSilentPeriodList sil D) \<union> spans sil
            = {0 ..< D} - spans (droppedGaps sil D))"
proof -
  have ch: "chained (planNotSilentPeriodList sil D)"
    unfolding plan_eq_cursorPlan using assms by (rule cursorPlan_chained)
  have so: "sorted (map fst (planNotSilentPeriodList sil D))"
    using ch by (rule chained_sorted_fst)
  have pw: "\<forall>i j. i < j \<and> j < length (planNotSilentPeriodList sil D) \<longrightarrow>
          snd (planNotSilentPeriodList sil D ! i) \<le> fst (planNotSilentPeriodList sil D ! j)"
    using chained_pairwise [OF ch] by blast
  have cov: "spans (planNotSilentPeriodList sil D) \<union> spans sil
        = {0 ..< D} - spans (droppedGaps sil D)" if w: "withinDuration D sil"
  proof -
    have "0 \<le> (case sil of [] \<Rightarrow> 0 | p # _ \<Rightarrow> fst p)"
      using w by (cases sil) (auto simp: withinDuration_def)
    then have ok: "okFrom 0 sil D"
      using chained_okFrom [OF assms w, of 0] by simp
    show ?thesis
      unfolding plan_eq_cursorPlan droppedGaps_def using ok by (rule cover_from)
  qed
  show ?thesis using so ch pw cov by blast
qed

theorem planner_sorted_disjoint_cover_witness:
  "chained [(2, 3), (3.5, 6)] \<and> withinDuration 10 [(2, 3), (3.5, 6)]
   \<and> planNotSilentPeriodList [(2, 3), (3.5, 6)] 10 = [(0, 2), (6, 10)]
   \<and> droppedGaps [(2, 3), (3.5, 6)] 10 = [(3, 3.5)]
   \<and> spans [(0, 2), (6, 10)] \<union> spans [(2, 3), (3.5, 6)]
        = {0 ..< 10} - spans [(3, 3.5)]"
proof -
  have h1: "chained [(2, 3), (3.5, 6)]" by simp
  have h2: "withinDuration 10 [(2, 3), (3.5, 6)]" by (simp add: withinDuration_def)
  have k: "planNotSilentPeriodList [(2, 3), (3.5, 6)] 10 = [(0, 2), (6, 10)]"
    by (simp add: planNotSilentPeriodList_def planStep_def minimumNotSilentDuration_def)
  have d: "droppedGaps [(2, 3), (3.5, 6)] 10 = [(3, 3.5)]"
    by (simp add: droppedGaps_def minimumNotSilentDuration_def)
  show ?thesis
    using planner_sorted_disjoint_cover [OF h1, of 10] h1 h2 k d by simp
qed

section \<open>Properties of the padding pass\<close>

lemma fold_push_map:
  "fold (\<lambda>i acc. acc @ [f i]) js acc = acc @ map f js"
  by (induction js arbitrary: acc) auto

lemma adjust_eq_map:
  "adjustNotSilentPeriodList ps = map (adjustPeriod ps) [0..<length ps]"
  by (simp add: adjustNotSilentPeriodList_def fold_push_map)

text \<open>
  Claim C3. The padding pass returns as many intervals as it is given; the start of
  interval \<open>i\<close> is the input start moved earlier by half the padding duration unless
  \<open>i = 0\<close>, where it is unchanged; the end of interval \<open>i\<close> is the input end moved
  later by half the padding duration unless \<open>i = n - 1\<close>, where it is unchanged.
\<close>

theorem padding_pass_shifts:
  "length (adjustNotSilentPeriodList ps) = length ps
   \<and> (\<forall>i < length ps.
        fst (adjustNotSilentPeriodList ps ! i)
          = (if i = 0 then fst (ps ! i) else fst (ps ! i) - remainingSilentDuration / 2)
      \<and> snd (adjustNotSilentPeriodList ps ! i)
          = (if i = length ps - 1 then snd (ps ! i)
             else snd (ps ! i) + remainingSilentDuration / 2))"
  by (simp add: adjust_eq_map adjustPeriod_def split: prod.splits)

theorem padding_pass_shifts_witness:
  "(1::nat) < length [(0, 2), (3, 5), (7, 10 :: real)]
   \<and> fst (adjustNotSilentPeriodList [(0, 2), (3, 5), (7, 10)] ! 1) = 3 - 0.4 / 2
   \<and> snd (adjustNotSilentPeriodList [(0, 2), (3, 5), (7, 10)] ! 1) = 5 + 0.4 / 2"
proof -
  have h: "(1::nat) < length [(0, 2), (3, 5), (7, 10 :: real)]" by simp
  show ?thesis
    using padding_pass_shifts [of "[(0, 2), (3, 5), (7, 10)]"] h
    by (simp add: remainingSilentDuration_def)
qed

section \<open>The silence-interval parser (\<^verbatim>\<open>getSilentPeriodListFromSilenceDetectOutput\<close>, lines 162-189)\<close>

subsection \<open>The regular expression\<close>

text \<open>
  Line 163 scans the output with
  \<^verbatim>\<open>/^\[silencedetect[^\]]*\]\s*silence_(start|end)\s*:\s*(\d+(?:\.\d+)?)/mg\<close>.
  The character classes are those of ECMAScript on code units: \<^verbatim>\<open>\s\<close> is WhiteSpace
  (TAB, VT, FF, ZWNBSP and the Unicode space separators) or LineTerminator (LF, CR, LS,
  PS), and \<^verbatim>\<open>\d\<close> is an ASCII digit. With the \<^verbatim>\<open>m\<close> flag, \<^verbatim>\<open>^\<close> holds at
  the start of the input and after a LineTerminator.
\<close>

definition isLineTerminator :: "nat \<Rightarrow> bool" where
  "isLineTerminator c = (c = 10 \<or> c = 13 \<or> c = 8232 \<or> c = 8233)"

definition isWhiteSpace :: "nat \<Rightarrow> bool" where
  "isWhiteSpace c =
     (c = 9 \<or> c = 11 \<or> c = 12 \<or> c = 32 \<or> c = 160 \<or> c = 5760
      \<or> (8192 \<le> c \<and> c \<le> 8202) \<or> c = 8239 \<or> c = 8287 \<or> c = 12288 \<or> c = 65279
      \<or> isLineTerminator c)"

definition isDigit :: "nat \<Rightarrow> bool" where
  "isDigit c = (48 \<le> c \<and> c \<le> 57)"

text \<open>
  The expression never has to backtrack, so a match at a given position is computed left
  to right. \<^verbatim>\<open>[^\]]*\<close> must stop at the first \<^verbatim>\<open>]\<close> (code unit 93), since it cannot
  consume one and a \<^verbatim>\<open>]\<close> must follow; it does run across line ends. Each
  \<^verbatim>\<open>\s*\<close> is followed by a character that is no white space, and the greedy
  \<^verbatim>\<open>\d+(?:\.\d+)?\<close> ends the expression, so the longest choice always succeeds.
  \<open>matchAt\<close> returns the two capture groups and the text after the match.
\<close>

fun matchLiteral :: "jstring \<Rightarrow> jstring \<Rightarrow> jstring option" where
  "matchLiteral [] cs = Some cs"
| "matchLiteral (p # ps) [] = None"
| "matchLiteral (p # ps) (c # cs) = (if p = c then matchLiteral ps cs else None)"

type_synonym matchedLine = "jstring \<times> jstring"

definition matchType :: "jstring \<Rightarrow> (jstring \<times> jstring) option" where
  "matchType cs =
     (case matchLiteral (str ''start'') cs of
        Some r \<Rightarrow> Some (str ''start'', r)
      | None \<Rightarrow>
          (case matchLiteral (str ''end'') cs of
             Some r \<Rightarrow> Some (str ''end'', r)
           | None \<Rightarrow> None))"

definition matchNumber :: "jstring \<Rightarrow> (jstring \<times> jstring) option" where
  "matchNumber cs =
     (let ds = takeWhile isDigit cs; r = dropWhile isDigit cs in
      if ds = [] then None
      else (case r of
              [] \<Rightarrow> Some (ds, r)
            | c # fs \<Rightarrow>
                if c = 46 \<and> takeWhile isDigit fs \<noteq> []
                then Some (ds @ [46] @ takeWhile isDigit fs, dropWhile isDigit fs)
                else Some (ds, r)))"

definition matchAt :: "jstring \<Rightarrow> (matchedLine \<times> jstring) option" where
  "matchAt cs =
     (case matchLiteral (str ''[silencedetect'') cs of None \<Rightarrow> None | Some r1 \<Rightarrow>
      case dropWhile (\<lambda>c. c \<noteq> 93) r1 of [] \<Rightarrow> None | c # r2 \<Rightarrow>
      case matchLiteral (str ''silence_'') (dropWhile isWhiteSpace r2) of None \<Rightarrow> None | Some r3 \<Rightarrow>
      case matchType r3 of None \<Rightarrow> None | Some (type, r4) \<Rightarrow>
      case matchLiteral (str '':'') (dropWhile isWhiteSpace r4) of None \<Rightarrow> None | Some r5 \<Rightarrow>
      case matchNumber (dropWhile isWhiteSpace r5) of None \<Rightarrow> None | Some (positionStr, r6) \<Rightarrow>
        Some ((type, positionStr), r6))"

lemma matchLiteral_length:
  "matchLiteral p cs = Some r \<Longrightarrow> length r + length p = length cs"
  by (induction p cs rule: matchLiteral.induct) (auto split: if_splits)

lemma matchType_length: "matchType cs = Some (t, r) \<Longrightarrow> length r < length cs"
  by (auto simp: matchType_def str_def split: option.splits dest!: matchLiteral_length)

lemma matchNumber_length: "matchNumber cs = Some (t, r) \<Longrightarrow> length r \<le> length cs"
proof -
  assume a: "matchNumber cs = Some (t, r)"
  have 1: "length (dropWhile isDigit cs) \<le> length cs" by (rule length_dropWhile_le)
  show ?thesis
  proof (cases "dropWhile isDigit cs")
    case Nil
    have "r = []" using a unfolding matchNumber_def Let_def Nil by (simp split: if_splits)
    then show ?thesis by simp
  next
    case (Cons c fs)
    have "length (dropWhile isDigit fs) \<le> length fs" by (rule length_dropWhile_le)
    then have "length (dropWhile isDigit fs) \<le> length cs" using 1 Cons by simp
    moreover have "r = dropWhile isDigit fs \<or> r = dropWhile isDigit cs"
      using a unfolding matchNumber_def Let_def Cons by (simp split: if_splits)
    ultimately show ?thesis using 1 by auto
  qed
qed

lemma matchAt_length:
  assumes "matchAt cs = Some (m, rest)" shows "length rest < length cs"
proof -
  from assms obtain r1 c r2 r3 ty r4 r5 ps where
    a1: "matchLiteral (str ''[silencedetect'') cs = Some r1" and
    a2: "dropWhile (\<lambda>c. c \<noteq> 93) r1 = c # r2" and
    a3: "matchLiteral (str ''silence_'') (dropWhile isWhiteSpace r2) = Some r3" and
    a4: "matchType r3 = Some (ty, r4)" and
    a5: "matchLiteral (str '':'') (dropWhile isWhiteSpace r4) = Some r5" and
    a6: "matchNumber (dropWhile isWhiteSpace r5) = Some (ps, rest)"
    unfolding matchAt_def by (auto split: option.splits list.splits prod.splits)
  have "length r1 \<le> length cs" using matchLiteral_length [OF a1] by simp
  moreover have "length r2 < length r1"
    using length_dropWhile_le [of "\<lambda>c. c \<noteq> 93" r1] a2 by simp
  moreover have "length r3 \<le> length r2"
    using matchLiteral_length [OF a3] length_dropWhile_le [of isWhiteSpace r2] by simp
  moreover have "length r4 < length r3" using matchType_length [OF a4] .
  moreover have "length r5 \<le> length r4"
    using matchLiteral_length [OF a5] length_dropWhile_le [of isWhiteSpace r4] by simp
  moreover have "length rest \<le> length r5"
    using matchNumber_length [OF a6] length_dropWhile_le [of isWhiteSpace r5] by simp
  ultimately show ?thesis by linarith
qed

text \<open>
  \<^verbatim>\<open>matchAll\<close> with the \<^verbatim>\<open>g\<close> flag yields the matches from left to right, each
  search starting where the previous match ended. \<open>scanFrom atLineStart cs\<close> walks
  the rest \<open>cs\<close> of the text; \<open>atLineStart\<close> says whether \<^verbatim>\<open>^\<close> holds at its
  first position. A match ends with a digit, so \<^verbatim>\<open>^\<close> does not hold right after it.
\<close>

function scanFrom :: "bool \<Rightarrow> jstring \<Rightarrow> matchedLine list" where
  "scanFrom atLineStart [] = []"
| "scanFrom atLineStart (c # cs) =
     (case (if atLineStart then matchAt (c # cs) else None) of
        Some (m, rest) \<Rightarrow> m # scanFrom False rest
      | None \<Rightarrow> scanFrom (isLineTerminator c) cs)"
  by pat_completeness auto
termination
proof (relation "measure (\<lambda>(b, cs). length cs)")
  show "wf (measure (\<lambda>(b, cs). length cs))" by simp
next
  fix atLineStart c cs x2 x y
  assume "(if atLineStart then matchAt (c # cs) else None) = Some x2" "(x, y) = x2"
  then have "matchAt (c # cs) = Some (x, y)" by (auto split: if_splits)
  then show "((False, y), atLineStart, c # cs) \<in> measure (\<lambda>(b, cs). length cs)"
    using matchAt_length by fastforce
next
  fix atLineStart c cs
  show "((isLineTerminator c, cs), atLineStart, c # cs) \<in> measure (\<lambda>(b, cs). length cs)"
    by simp
qed

definition matchAll :: "jstring \<Rightarrow> matchedLine list" where
  "matchAll output = scanFrom True output"

subsection \<open>Pairing the markers\<close>

text \<open>
  \<^verbatim>\<open>throw Error(message)\<close> is the value \<open>Inl (Error message)\<close>. \<open>parseFloat\<close> is
  modelled on the strings capture group 2 can hold, digits with an optional fraction,
  and gives the exact decimal value. The loop state is \<^verbatim>\<open>lastPosition\<close>,
  \<^verbatim>\<open>startPosition\<close> (\<open>None\<close> for \<^verbatim>\<open>null\<close>) and \<^verbatim>\<open>periodList\<close>. The test
  \<^verbatim>\<open>if (!matched)\<close> of line 164 never fires, since \<^verbatim>\<open>matchAll\<close> returns an
  iterator object.
\<close>

datatype error = Error jstring

type_synonym parseState = "real \<times> real option \<times> period list"

definition digitsValue :: "jstring \<Rightarrow> nat" where
  "digitsValue ds = foldl (\<lambda>a c. 10 * a + (c - 48)) 0 ds"

definition parseFloat :: "jstring \<Rightarrow> real" where
  "parseFloat s =
     (let ds = takeWhile isDigit s in
      case dropWhile isDigit s of
        [] \<Rightarrow> real (digitsValue ds)
      | c # r \<Rightarrow>
          if c = 46
          then real (digitsValue ds)
                 + real (digitsValue (takeWhile isDigit r)) / 10 ^ length (takeWhile isDigit r)
          else real (digitsValue ds))"

definition parseStep :: "jstring \<Rightarrow> parseState \<Rightarrow> matchedLine \<Rightarrow> error + parseState" where
  "parseStep output st matchedLine =
     (case st of (lastPosition, startPosition, periodList) \<Rightarrow>
      case matchedLine of (type, positionStr) \<Rightarrow>
      let position = parseFloat positionStr in
      case startPosition of
        None \<Rightarrow>
          if type \<noteq> str ''start''
          then Inl (Error (str ''Unexpected period end: '' @ output))
          else Inr (position, Some position, periodList)
      | Some startPosition' \<Rightarrow>
          if type \<noteq> str ''end''
          then Inl (Error (str ''Unexpected period start: '' @ output))
          else Inr (position, None, periodList @ [(startPosition', position)]))"

fun parseLoop :: "jstring \<Rightarrow> parseState \<Rightarrow> matchedLine list \<Rightarrow> error + parseState" where
  "parseLoop output st [] = Inr st"
| "parseLoop output st (m # ms) =
     (case parseStep output st m of
        Inl e \<Rightarrow> Inl e
      | Inr st' \<Rightarrow> parseLoop output st' ms)"

definition getSilentPeriodListFromSilenceDetectOutput :: "jstring \<Rightarrow> error + period list" where
  "getSilentPeriodListFromSilenceDetectOutput output =
     (case parseLoop output (- 1, None, []) (matchAll output) of
        Inl e \<Rightarrow> Inl e
      | Inr (lastPosition, startPosition, periodList) \<Rightarrow> Inr periodList)"

subsection \<open>Vocabulary of the statements about the parser\<close>

text \<open>
  \<open>violatesAlternation unmatched ts\<close> reads the marker types \<open>ts\<close> in order, where
  \<open>unmatched\<close> says that a start is waiting for its end: it holds when an end comes
  while no start is unmatched, or a start comes while a start is unmatched.
  \<open>markersOf ivs\<close> is the balanced marker sequence of the intervals \<open>ivs\<close>, given by
  their position strings, and \<open>periodOf\<close> the interval such a pair denotes.
\<close>

fun violatesAlternation :: "bool \<Rightarrow> jstring list \<Rightarrow> bool" where
  "violatesAlternation unmatched [] = False"
| "violatesAlternation unmatched (t # ts) =
     (if t = str ''end''
      then (if unmatched then violatesAlternation False ts else True)
      else (if unmatched then True else violatesAlternation True ts))"

text \<open>
  Strict alternation by position: with no start unmatched, the marker at an even position
  is a start and the marker at an odd position is an end.
\<close>

definition expectedType :: "bool \<Rightarrow> nat \<Rightarrow> jstring" where
  "expectedType unmatched i = (if even i = (\<not> unmatched) then str ''start'' else str ''end'')"

definition markersOf :: "(jstring \<times> jstring) list \<Rightarrow> matchedLine list" where
  "markersOf ivs = concat (map (\<lambda>iv. [(str ''start'', fst iv), (str ''end'', snd iv)]) ivs)"

definition periodOf :: "jstring \<times> jstring \<Rightarrow> period" where
  "periodOf iv = (parseFloat (fst iv), parseFloat (snd iv))"

subsection \<open>Properties of the parser\<close>

lemmas scan_defs = matchAll_def str_def matchAt_def matchType_def matchNumber_def
  isDigit_def isWhiteSpace_def isLineTerminator_def

lemma start_neq_end: "str ''start'' \<noteq> str ''end''"
  by (simp add: str_def)

lemma matchType_types:
  "matchType cs = Some (t, r) \<Longrightarrow> t = str ''start'' \<or> t = str ''end''"
  by (auto simp: matchType_def split: option.splits)

lemma matchAt_types:
  "matchAt cs = Some ((t, p), r) \<Longrightarrow> t = str ''start'' \<or> t = str ''end''"
  unfolding matchAt_def
  by (auto split: option.splits list.splits prod.splits dest: matchType_types)

lemma scanFrom_types:
  "m \<in> set (scanFrom b cs) \<Longrightarrow> fst m = str ''start'' \<or> fst m = str ''end''"
proof (induction b cs rule: scanFrom.induct)
  case (1 b)
  then show ?case by simp
next
  case (2 b c cs)
  show ?case
  proof (cases "if b then matchAt (c # cs) else None")
    case None
    then show ?thesis using 2 by simp
  next
    case (Some x)
    obtain t p r where x: "x = ((t, p), r)" by (metis prod.collapse)
    have "matchAt (c # cs) = Some ((t, p), r)" using Some x by (simp split: if_splits)
    then have tp: "t = str ''start'' \<or> t = str ''end''" by (rule matchAt_types)
    from "2.prems" Some x have "m = (t, p) \<or> m \<in> set (scanFrom False r)" by simp
    then show ?thesis
    proof
      assume "m = (t, p)"
      then show ?thesis using tp by simp
    next
      assume "m \<in> set (scanFrom False r)"
      then show ?thesis using "2.IH"(2) [OF Some x [symmetric]] by simp
    qed
  qed
qed

lemma parseLoop_violation:
  assumes "\<forall>m \<in> set ms. fst m = str ''start'' \<or> fst m = str ''end''"
      and "violatesAlternation (sp \<noteq> None) (map fst ms)"
  shows "parseLoop output (lp, sp, pl) ms = Inl (Error (str ''Unexpected period end: '' @ output))
       \<or> parseLoop output (lp, sp, pl) ms = Inl (Error (str ''Unexpected period start: '' @ output))"
  using assms
proof (induction ms arbitrary: lp sp pl)
  case Nil
  then show ?case by simp
next
  case (Cons m ms)
  obtain t p where m: "m = (t, p)" by (cases m)
  have ty: "t = str ''start'' \<or> t = str ''end''" using Cons.prems(1) m by simp
  have rest: "\<forall>m \<in> set ms. fst m = str ''start'' \<or> fst m = str ''end''"
    using Cons.prems(1) by simp
  show ?case
  proof (cases sp)
    case None
    show ?thesis
    proof (cases "t = str ''end''")
      case True
      then show ?thesis using None m start_neq_end by (simp add: parseStep_def Let_def)
    next
      case False
      then have t: "t = str ''start''" using ty by simp
      have "violatesAlternation (Some (parseFloat p) \<noteq> None) (map fst ms)"
        using Cons.prems(2) None m False by simp
      from Cons.IH [OF rest this] show ?thesis
        using None m t by (simp add: parseStep_def Let_def)
    qed
  next
    case (Some s)
    show ?thesis
    proof (cases "t = str ''end''")
      case True
      have "violatesAlternation ((None :: real option) \<noteq> None) (map fst ms)"
        using Cons.prems(2) Some m True by simp
      from Cons.IH [OF rest this] show ?thesis
        using Some m True by (simp add: parseStep_def Let_def)
    next
      case False
      then show ?thesis using Some m by (simp add: parseStep_def Let_def)
    qed
  qed
qed

lemma parseLoop_markersOf:
  "\<exists>lp'. parseLoop output (lp, None, pl) (markersOf ivs @ rest)
        = parseLoop output (lp', None, pl @ map periodOf ivs) rest"
proof (induction ivs arbitrary: lp pl)
  case Nil
  show ?case by (rule exI [of _ lp]) (simp add: markersOf_def)
next
  case (Cons iv ivs)
  have step: "parseLoop output (lp, None, pl) (markersOf (iv # ivs) @ rest)
        = parseLoop output (parseFloat (snd iv), None, pl @ [periodOf iv]) (markersOf ivs @ rest)"
    by (simp add: markersOf_def parseStep_def Let_def periodOf_def start_neq_end)
  from Cons.IH [of "parseFloat (snd iv)" "pl @ [periodOf iv]"]
  show ?case unfolding step by simp
qed

text \<open>
  A marker sequence violates alternation exactly when some marker is not the one its
  position expects.
\<close>

lemma expectedType_Suc: "expectedType u (Suc i) = expectedType (\<not> u) i"
  by (auto simp: expectedType_def)

lemma violatesAlternation_iff:
  assumes "\<forall>t \<in> set ts. t = str ''start'' \<or> t = str ''end''"
  shows "violatesAlternation u ts \<longleftrightarrow> (\<exists>i < length ts. ts ! i \<noteq> expectedType u i)"
  using assms
proof (induction ts arbitrary: u)
  case Nil
  show ?case by simp
next
  case (Cons t ts)
  have ih: "\<And>u. violatesAlternation u ts \<longleftrightarrow> (\<exists>i < length ts. ts ! i \<noteq> expectedType u i)"
    using Cons by simp
  have t: "t = str ''start'' \<or> t = str ''end''" using Cons.prems by simp
  have split: "(\<exists>i < length (t # ts). (t # ts) ! i \<noteq> expectedType u i)
      \<longleftrightarrow> (t \<noteq> expectedType u 0 \<or> (\<exists>i < length ts. ts ! i \<noteq> expectedType (\<not> u) i))"
    by (simp add: Ex_less_Suc2 expectedType_Suc)
  show ?case
    unfolding split using t start_neq_end
    by (cases u) (auto simp: ih expectedType_def)
qed

text \<open>
  Claim C4. When the markers of the diagnostic text, read in order, violate strict
  alternation (an end with no unmatched start before it, or a start while a start is
  still unmatched), the parser throws: it returns no interval list but one of its two
  errors.
\<close>

theorem parser_rejects_broken_alternation:
  assumes "violatesAlternation False (map fst (matchAll output))"
  shows "getSilentPeriodListFromSilenceDetectOutput output
           = Inl (Error (str ''Unexpected period end: '' @ output))
       \<or> getSilentPeriodListFromSilenceDetectOutput output
           = Inl (Error (str ''Unexpected period start: '' @ output))"
proof -
  have ty: "\<forall>m \<in> set (matchAll output). fst m = str ''start'' \<or> fst m = str ''end''"
    unfolding matchAll_def using scanFrom_types by blast
  have v: "violatesAlternation ((None :: real option) \<noteq> None) (map fst (matchAll output))"
    using assms by simp
  have "parseLoop output (- 1, None, []) (matchAll output)
           = Inl (Error (str ''Unexpected period end: '' @ output))
       \<or> parseLoop output (- 1, None, []) (matchAll output)
           = Inl (Error (str ''Unexpected period start: '' @ output))"
    by (rule parseLoop_violation [OF ty v])
  then show ?thesis
    unfolding getSilentPeriodListFromSilenceDetectOutput_def by auto
qed

theorem parser_rejects_broken_alternation_witness:
  "violatesAlternation False
     (map fst (matchAll (str ''[silencedetect @ 0x5581] silence_end: 3\<newline>'')))
   \<and> getSilentPeriodListFromSilenceDetectOutput (str ''[silencedetect @ 0x5581] silence_end: 3\<newline>'')
       = Inl (Error (str ''Unexpected period end: [silencedetect @ 0x5581] silence_end: 3\<newline>''))"
proof -
  have m: "matchAll (str ''[silencedetect @ 0x5581] silence_end: 3\<newline>'') = [(str ''end'', str ''3'')]"
    by (simp add: scan_defs)
  have h: "violatesAlternation False
     (map fst (matchAll (str ''[silencedetect @ 0x5581] silence_end: 3\<newline>'')))"
    unfolding m by simp
  have "getSilentPeriodListFromSilenceDetectOutput (str ''[silencedetect @ 0x5581] silence_end: 3\<newline>'')
       \<noteq> Inl (Error (str ''Unexpected period start: [silencedetect @ 0x5581] silence_end: 3\<newline>''))"
    unfolding getSilentPeriodListFromSilenceDetectOutput_def m
    by (simp add: parseStep_def Let_def str_def)
  then show ?thesis
    using parser_rejects_broken_alternation [OF h] h by (simp add: str_def)
qed

text \<open>
  Claim C5. When the markers are the balanced sequence of some intervals followed by one
  more start marker, the parser does not throw and returns exactly those intervals: no
  interval is emitted for the trailing start.
\<close>

theorem parser_drops_trailing_start:
  assumes "matchAll output = markersOf ivs @ [(str ''start'', p)]"
  shows "getSilentPeriodListFromSilenceDetectOutput output = Inr (map periodOf ivs)"
proof -
  obtain lp' where
    "parseLoop output (- 1, None, []) (markersOf ivs @ [(str ''start'', p)])
       = parseLoop output (lp', None, [] @ map periodOf ivs) [(str ''start'', p)]"
    using parseLoop_markersOf by blast
  then show ?thesis
    unfolding getSilentPeriodListFromSilenceDetectOutput_def assms
    by (simp add: parseStep_def Let_def)
qed

theorem parser_drops_trailing_start_witness:
  "matchAll (str ''[silencedetect @ 0x5581] silence_start: 1.5\<newline>[silencedetect @ 0x5581] silence_end: 2 | silence_duration: 0.5\<newline>[silencedetect @ 0x5581] silence_start: 7.25\<newline>'')
     = markersOf [(str ''1.5'', str ''2'')] @ [(str ''start'', str ''7.25'')]
   \<and> getSilentPeriodListFromSilenceDetectOutput (str ''[silencedetect @ 0x5581] silence_start: 1.5\<newline>[silencedetect @ 0x5581] silence_end: 2 | silence_duration: 0.5\<newline>[silencedetect @ 0x5581] silence_start: 7.25\<newline>'')
     = Inr [(1.5, 2)]"
proof -
  have h: "matchAll (str ''[silencedetect @ 0x5581] silence_start: 1.5\<newline>[silencedetect @ 0x5581] silence_end: 2 | silence_duration: 0.5\<newline>[silencedetect @ 0x5581] silence_start: 7.25\<newline>'')
     = markersOf [(str ''1.5'', str ''2'')] @ [(str ''start'', str ''7.25'')]"
    by (simp add: scan_defs markersOf_def)
  have v: "map periodOf [(str ''1.5'', str ''2'')] = [(1.5, 2)]"
    by (simp add: periodOf_def parseFloat_def digitsValue_def str_def isDigit_def)
  show ?thesis
    using parser_drops_trailing_start [OF h] h v by simp
qed

lemma parse_balanced:
  assumes "matchAll output = markersOf ivs"
  shows "getSilentPeriodListFromSilenceDetectOutput output = Inr (map periodOf ivs)"
proof -
  obtain lp' where
    "parseLoop output (- 1, None, []) (markersOf ivs @ [])
       = parseLoop output (lp', None, [] @ map periodOf ivs) []"
    using parseLoop_markersOf by blast
  then show ?thesis
    unfolding getSilentPeriodListFromSilenceDetectOutput_def assms by simp
qed

section \<open>Rendering intervals as diagnostic text\<close>

text \<open>
  The synthetic text of the round-trip property, written from the specification: one
  \<^verbatim>\<open>silence_start\<close> line and one \<^verbatim>\<open>silence_end\<close> line per interval, in order, in
  the line format of the silence detector. A timestamp is a signed decimal: the pair
  \<open>(z, k)\<close> of an integer and a number of fractional digits stands for \<open>z / 10 ^ k\<close>
  and is written in plain decimal notation, a minus sign first when it is negative,
  then the digits of its magnitude with \<open>k\<close> fractional digits.
\<close>

fun digitsOf :: "nat \<Rightarrow> jstring" where
  "digitsOf n = (if n < 10 then [48 + n] else digitsOf (n div 10) @ [48 + n mod 10])"

declare digitsOf.simps [simp del]

fun fractionDigits :: "nat \<Rightarrow> nat \<Rightarrow> jstring" where
  "fractionDigits 0 m = []"
| "fractionDigits (Suc k) m = fractionDigits k (m div 10) @ [48 + m mod 10]"

type_synonym decimal = "nat \<times> nat"

definition renderDecimal :: "decimal \<Rightarrow> jstring" where
  "renderDecimal d =
     (case d of (n, k) \<Rightarrow>
        digitsOf (n div 10 ^ k)
          @ (if k = 0 then [] else 46 # fractionDigits k (n mod 10 ^ k)))"

definition decimalValue :: "decimal \<Rightarrow> real" where
  "decimalValue d = (case d of (n, k) \<Rightarrow> real n / 10 ^ k)"

type_synonym timestamp = "int \<times> nat"

definition renderTimestamp :: "timestamp \<Rightarrow> jstring" where
  "renderTimestamp t =
     (case t of (z, k) \<Rightarrow>
        if z < 0 then 45 # renderDecimal (nat (- z), k) else renderDecimal (nat z, k))"

definition timestampValue :: "timestamp \<Rightarrow> real" where
  "timestampValue t = (case t of (z, k) \<Rightarrow> real_of_int z / 10 ^ k)"

definition renderLine :: "jstring \<Rightarrow> timestamp \<Rightarrow> jstring" where
  "renderLine type t =
     str ''[silencedetect @ 0x5581] silence_'' @ type @ str '': '' @ renderTimestamp t @ [10]"

definition renderIntervals :: "(timestamp \<times> timestamp) list \<Rightarrow> jstring" where
  "renderIntervals ivs =
     concat (map (\<lambda>iv. renderLine (str ''start'') (fst iv) @ renderLine (str ''end'') (snd iv)) ivs)"

definition renderedPeriod :: "timestamp \<times> timestamp \<Rightarrow> period" where
  "renderedPeriod iv = (timestampValue (fst iv), timestampValue (snd iv))"

definition nonNegative :: "timestamp \<times> timestamp \<Rightarrow> bool" where
  "nonNegative iv = (0 \<le> fst (fst iv) \<and> 0 \<le> fst (snd iv))"


subsection \<open>The parser reads back what was rendered\<close>

lemma digitsOf_isDigit: "c \<in> set (digitsOf n) \<Longrightarrow> isDigit c"
proof (induction n arbitrary: c rule: digitsOf.induct)
  case (1 n)
  show ?case
  proof (cases "n < 10")
    case True
    then show ?thesis using "1.prems" by (simp add: digitsOf.simps [of n] isDigit_def)
  next
    case False
    have "n mod 10 < 10" by simp
    then have "isDigit (48 + n mod 10)" unfolding isDigit_def by linarith
    then show ?thesis
      using False "1.prems" "1.IH" by (auto simp: digitsOf.simps [of n])
  qed
qed

lemma digitsOf_nonempty: "digitsOf n \<noteq> []"
  by (simp add: digitsOf.simps [of n])

lemma fractionDigits_isDigit: "c \<in> set (fractionDigits k m) \<Longrightarrow> isDigit c"
proof (induction k arbitrary: m c)
  case 0
  then show ?case by simp
next
  case (Suc k)
  have "m mod 10 < 10" by simp
  then have "isDigit (48 + m mod 10)" unfolding isDigit_def by linarith
  then show ?case using Suc by auto
qed

lemma fractionDigits_length: "length (fractionDigits k m) = k"
  by (induction k arbitrary: m) auto

lemma digitsValue_snoc: "digitsValue (ds @ [48 + d]) = 10 * digitsValue ds + d"
  by (simp add: digitsValue_def)

lemma digitsValue_digitsOf: "digitsValue (digitsOf n) = n"
proof (induction n rule: digitsOf.induct)
  case (1 n)
  show ?case
  proof (cases "n < 10")
    case True
    then show ?thesis by (simp add: digitsOf.simps [of n] digitsValue_def)
  next
    case False
    then show ?thesis
      using "1.IH" by (simp add: digitsOf.simps [of n] digitsValue_snoc)
  qed
qed

lemma digitsValue_fractionDigits: "digitsValue (fractionDigits k m) = m mod 10 ^ k"
proof (induction k arbitrary: m)
  case 0
  show ?case by (simp add: digitsValue_def)
next
  case (Suc k)
  have "m mod 10 ^ Suc k = 10 * (m div 10 mod 10 ^ k) + m mod 10"
    by (simp add: mod_mult2_eq)
  then show ?case using Suc by (simp add: digitsValue_snoc)
qed

lemma takeWhile_digits:
  "(\<And>c. c \<in> set ds \<Longrightarrow> isDigit c) \<Longrightarrow> \<not> isDigit x \<Longrightarrow> takeWhile isDigit (ds @ x # r) = ds"
  by (induction ds) auto

lemma dropWhile_digits:
  "(\<And>c. c \<in> set ds \<Longrightarrow> isDigit c) \<Longrightarrow> \<not> isDigit x \<Longrightarrow> dropWhile isDigit (ds @ x # r) = x # r"
  by (induction ds) auto

lemma takeWhile_all_digits:
  "(\<And>c. c \<in> set ds \<Longrightarrow> isDigit c) \<Longrightarrow> takeWhile isDigit ds = ds"
  by (induction ds) auto

lemma dropWhile_all_digits:
  "(\<And>c. c \<in> set ds \<Longrightarrow> isDigit c) \<Longrightarrow> dropWhile isDigit ds = []"
  by (induction ds) auto

lemma not_digit_46: "\<not> isDigit 46" and not_digit_10: "\<not> isDigit 10"
  by (simp_all add: isDigit_def)


lemma renderDecimal_cases:
  obtains (whole) ds where "renderDecimal d = ds" "ds \<noteq> []" "\<And>c. c \<in> set ds \<Longrightarrow> isDigit c"
  | (fraction) ds fs where "renderDecimal d = ds @ 46 # fs" "ds \<noteq> []" "fs \<noteq> []"
      "\<And>c. c \<in> set ds \<Longrightarrow> isDigit c" "\<And>c. c \<in> set fs \<Longrightarrow> isDigit c"
proof -
  obtain n k where d: "d = (n, k)" by (cases d)
  show ?thesis
  proof (cases "k = 0")
    case True
    show ?thesis
    proof (rule whole)
      show "renderDecimal d = digitsOf n" using d True by (simp add: renderDecimal_def)
      show "digitsOf n \<noteq> []" by (rule digitsOf_nonempty)
      show "\<And>c. c \<in> set (digitsOf n) \<Longrightarrow> isDigit c" by (rule digitsOf_isDigit)
    qed
  next
    case False
    show ?thesis
    proof (rule fraction)
      show "renderDecimal d = digitsOf (n div 10 ^ k) @ 46 # fractionDigits k (n mod 10 ^ k)"
        using d False by (simp add: renderDecimal_def)
      show "digitsOf (n div 10 ^ k) \<noteq> []" by (rule digitsOf_nonempty)
      show "fractionDigits k (n mod 10 ^ k) \<noteq> []"
        using False fractionDigits_length [of k "n mod 10 ^ k"] by auto
      show "\<And>c. c \<in> set (digitsOf (n div 10 ^ k)) \<Longrightarrow> isDigit c" by (rule digitsOf_isDigit)
      show "\<And>c. c \<in> set (fractionDigits k (n mod 10 ^ k)) \<Longrightarrow> isDigit c"
        by (rule fractionDigits_isDigit)
    qed
  qed
qed

lemma matchNumber_rendered:
  "matchNumber (renderDecimal d @ 10 # rest) = Some (renderDecimal d, 10 # rest)"
proof (cases d rule: renderDecimal_cases)
  case (whole ds)
  have "takeWhile isDigit (ds @ 10 # rest) = ds" "dropWhile isDigit (ds @ 10 # rest) = 10 # rest"
    using whole(3) not_digit_10 by (simp_all add: takeWhile_digits dropWhile_digits)
  then show ?thesis
    unfolding whole(1) matchNumber_def Let_def using whole(2) by simp
next
  case (fraction ds fs)
  have 1: "takeWhile isDigit (ds @ 46 # fs @ 10 # rest) = ds"
    and 2: "dropWhile isDigit (ds @ 46 # fs @ 10 # rest) = 46 # fs @ 10 # rest"
    using fraction(4) not_digit_46 by (simp_all add: takeWhile_digits dropWhile_digits)
  have 3: "takeWhile isDigit (fs @ 10 # rest) = fs"
    and 4: "dropWhile isDigit (fs @ 10 # rest) = 10 # rest"
    using fraction(5) not_digit_10 by (simp_all add: takeWhile_digits dropWhile_digits)
  show ?thesis
    unfolding fraction(1) matchNumber_def Let_def
    using fraction(2,3) by (simp add: 1 2 3 4)
qed

lemma parseFloat_rendered: "parseFloat (renderDecimal d) = decimalValue d"
proof -
  obtain n k where d: "d = (n, k)" by (cases d)
  show ?thesis
  proof (cases "k = 0")
    case True
    have r: "renderDecimal d = digitsOf n" using d True by (simp add: renderDecimal_def)
    have 1: "takeWhile isDigit (digitsOf n) = digitsOf n"
      and 2: "dropWhile isDigit (digitsOf n) = []"
      using digitsOf_isDigit by (simp_all add: takeWhile_all_digits dropWhile_all_digits)
    have "parseFloat (renderDecimal d) = real n"
      unfolding r parseFloat_def Let_def 1 2 by (simp add: digitsValue_digitsOf)
    then show ?thesis using d True by (simp add: decimalValue_def)
  next
    case False
    let ?w = "digitsOf (n div 10 ^ k)" and ?f = "fractionDigits k (n mod 10 ^ k)"
    have r: "renderDecimal d = ?w @ 46 # ?f" using d False by (simp add: renderDecimal_def)
    have 1: "takeWhile isDigit (?w @ 46 # ?f) = ?w"
      and 2: "dropWhile isDigit (?w @ 46 # ?f) = 46 # ?f"
      using digitsOf_isDigit not_digit_46 by (simp_all add: takeWhile_digits dropWhile_digits)
    have 3: "takeWhile isDigit ?f = ?f"
      using fractionDigits_isDigit by (simp add: takeWhile_all_digits)
    have ne: "n div 10 ^ k * 10 ^ k + n mod 10 ^ k = n" by (rule div_mult_mod_eq)
    have "real (n div 10 ^ k * 10 ^ k + n mod 10 ^ k) = real n"
      by (subst ne) (rule refl)
    then have re: "real (n div 10 ^ k) * 10 ^ k + real (n mod 10 ^ k) = real n"
      by (simp only: of_nat_add of_nat_mult of_nat_power of_nat_numeral)
    have "parseFloat (renderDecimal d)
            = real (n div 10 ^ k) + real (n mod 10 ^ k mod 10 ^ k) / 10 ^ k"
      unfolding r parseFloat_def Let_def 1 2 3
      by (simp add: 3 digitsValue_digitsOf digitsValue_fractionDigits fractionDigits_length)
    also have "\<dots> = real (n div 10 ^ k) + real (n mod 10 ^ k) / 10 ^ k" by simp
    also have "\<dots> = (real (n div 10 ^ k) * 10 ^ k + real (n mod 10 ^ k)) / 10 ^ k"
      by (simp add: add_divide_distrib)
    also have "\<dots> = real n / 10 ^ k" by (simp only: re)
    finally show ?thesis using d by (simp add: decimalValue_def)
  qed
qed

lemma digit_not_space: "isDigit c \<Longrightarrow> \<not> isWhiteSpace c"
  by (auto simp: isDigit_def isWhiteSpace_def isLineTerminator_def)

lemma dropWhile_space_rendered:
  "dropWhile isWhiteSpace (renderDecimal d @ r) = renderDecimal d @ r"
proof -
  obtain n k where d: "d = (n, k)" by (cases d)
  obtain c ds where w: "digitsOf (n div 10 ^ k) = c # ds"
    using digitsOf_nonempty by (cases "digitsOf (n div 10 ^ k)") auto
  have "isDigit c" using digitsOf_isDigit [of c "n div 10 ^ k"] w by simp
  then have "\<not> isWhiteSpace c" by (rule digit_not_space)
  then show ?thesis using d w by (simp add: renderDecimal_def)
qed

lemma renderTimestamp_nonneg:
  "0 \<le> fst t \<Longrightarrow> renderTimestamp t = renderDecimal (nat (fst t), snd t)"
  by (cases t) (simp add: renderTimestamp_def)

lemma timestampValue_nonneg:
  "0 \<le> fst t \<Longrightarrow> timestampValue t = decimalValue (nat (fst t), snd t)"
  by (cases t) (simp add: timestampValue_def decimalValue_def)

lemma parseFloat_renderTimestamp:
  "0 \<le> fst t \<Longrightarrow> parseFloat (renderTimestamp t) = timestampValue t"
  by (simp add: renderTimestamp_nonneg timestampValue_nonneg parseFloat_rendered)

lemma matchAt_rendered:
  assumes "type = str ''start'' \<or> type = str ''end''" and "0 \<le> fst t"
  shows "matchAt (renderLine type t @ rest) = Some ((type, renderTimestamp t), 10 # rest)"
  using assms(1) unfolding renderTimestamp_nonneg [OF assms(2)]
  by (auto simp: renderLine_def renderTimestamp_nonneg [OF assms(2)] matchAt_def matchType_def
      str_def isWhiteSpace_def isLineTerminator_def dropWhile_space_rendered matchNumber_rendered)

lemma scanFrom_rendered:
  assumes "type = str ''start'' \<or> type = str ''end''" and "0 \<le> fst t"
  shows "scanFrom True (renderLine type t @ rest) = (type, renderTimestamp t) # scanFrom True rest"
proof -
  obtain cs where cs: "renderLine type t @ rest = 91 # cs"
    by (simp add: renderLine_def str_def)
  have "scanFrom True (91 # cs) = (type, renderTimestamp t) # scanFrom False (10 # rest)"
    using matchAt_rendered [OF assms, of rest] unfolding cs by simp
  also have "scanFrom False (10 # rest) = scanFrom True rest"
    by (simp add: isLineTerminator_def)
  finally show ?thesis unfolding cs .
qed

lemma matchAll_rendered:
  assumes "\<forall>iv \<in> set ivs. nonNegative iv"
  shows "matchAll (renderIntervals ivs)
     = markersOf (map (\<lambda>iv. (renderTimestamp (fst iv), renderTimestamp (snd iv))) ivs)"
proof -
  have "scanFrom True (renderIntervals ivs)
     = markersOf (map (\<lambda>iv. (renderTimestamp (fst iv), renderTimestamp (snd iv))) ivs)"
    using assms
  proof (induction ivs)
    case Nil
    show ?case by (simp add: renderIntervals_def markersOf_def)
  next
    case (Cons iv ivs)
    have nn: "0 \<le> fst (fst iv)" "0 \<le> fst (snd iv)"
      using Cons.prems by (simp_all add: nonNegative_def)
    have ih: "scanFrom True (renderIntervals ivs)
       = markersOf (map (\<lambda>iv. (renderTimestamp (fst iv), renderTimestamp (snd iv))) ivs)"
      using Cons by simp
    have "renderIntervals (iv # ivs)
            = renderLine (str ''start'') (fst iv)
                @ (renderLine (str ''end'') (snd iv) @ renderIntervals ivs)"
      by (simp add: renderIntervals_def)
    then show ?case
      using ih nn by (simp add: scanFrom_rendered markersOf_def)
  qed
  then show ?thesis by (simp add: matchAll_def)
qed

text \<open>
  Claim C6, as stated: rendering any list of intervals and parsing the text returns the
  list. It fails for a negative timestamp: the regular expression of line 163 accepts
  digits only after the colon, so the line \<^verbatim>\<open>silence_start: -0.0213\<close> is no marker to
  the parser, the \<^verbatim>\<open>silence_end\<close> line that follows is the first marker, and the parser
  throws instead of returning the interval.
\<close>

theorem negative_timestamp_roundtrip_counterexample:
  "renderIntervals [((- 213, 4), (15, 1))]
     = str ''[silencedetect @ 0x5581] silence_start: -0.0213\<newline>[silencedetect @ 0x5581] silence_end: 1.5\<newline>''
   \<and> getSilentPeriodListFromSilenceDetectOutput (renderIntervals [((- 213, 4), (15, 1))])
     = Inl (Error (str ''Unexpected period end: '' @ renderIntervals [((- 213, 4), (15, 1))]))
   \<and> getSilentPeriodListFromSilenceDetectOutput (renderIntervals [((- 213, 4), (15, 1))])
     \<noteq> Inr (map renderedPeriod [((- 213, 4), (15, 1))])"
proof -
  have r: "renderIntervals [((- 213, 4), (15, 1))]
     = str ''[silencedetect @ 0x5581] silence_start: -0.0213\<newline>[silencedetect @ 0x5581] silence_end: 1.5\<newline>''"
    by code_simp
  have m: "matchAll (str ''[silencedetect @ 0x5581] silence_start: -0.0213\<newline>[silencedetect @ 0x5581] silence_end: 1.5\<newline>'')
     = [(str ''end'', str ''1.5'')]"
    by (simp add: scan_defs)
  have p: "getSilentPeriodListFromSilenceDetectOutput (renderIntervals [((- 213, 4), (15, 1))])
     = Inl (Error (str ''Unexpected period end: '' @ renderIntervals [((- 213, 4), (15, 1))]))"
    unfolding r getSilentPeriodListFromSilenceDetectOutput_def m
    by (simp add: parseStep_def Let_def str_def)
  show ?thesis using r p by simp
qed

text \<open>
  Claim C6, amended. Round trip: rendering any list of intervals with non-negative
  timestamps as diagnostic text with balanced, correctly ordered start and end marker
  lines, the timestamps in plain decimal notation, and parsing that text returns
  exactly the values of those intervals, in the original order.
\<close>

theorem parser_render_roundtrip:
  assumes "\<forall>iv \<in> set ivs. nonNegative iv"
  shows "getSilentPeriodListFromSilenceDetectOutput (renderIntervals ivs)
     = Inr (map renderedPeriod ivs)"
proof -
  have "map periodOf (map (\<lambda>iv. (renderTimestamp (fst iv), renderTimestamp (snd iv))) ivs)
          = map renderedPeriod ivs"
    using assms
    by (simp add: periodOf_def renderedPeriod_def nonNegative_def parseFloat_renderTimestamp)
  then show ?thesis
    using parse_balanced [OF matchAll_rendered [OF assms]] by simp
qed

theorem parser_render_roundtrip_witness:
  "nonNegative ((25, 1), (3, 0)) \<and> nonNegative ((1005, 2), (12, 0))
   \<and> getSilentPeriodListFromSilenceDetectOutput
       (renderIntervals [((25, 1), (3, 0)), ((1005, 2), (12, 0))])
     = Inr [(2.5, 3), (10.05, 12)]"
proof -
  have h: "\<forall>iv \<in> set [((25, 1), (3, 0)), ((1005, 2), (12, 0))]. nonNegative iv"
    by (simp add: nonNegative_def)
  show ?thesis
    using parser_render_roundtrip [OF h] h
    by (simp add: renderedPeriod_def timestampValue_def nonNegative_def)
qed

section \<open>A text without markers\<close>

text \<open>
  Claim C10. When the diagnostic text holds no silence marker, the parser returns the
  empty list without error; then, for a duration above the minimum keep duration, the
  planner emits the single keep interval \<open>(0, D)\<close> and the padding pass leaves it
  unchanged.
\<close>

theorem no_markers_keep_whole:
  assumes "matchAll output = []" and "D > minimumNotSilentDuration"
  shows "getSilentPeriodListFromSilenceDetectOutput output = Inr []
       \<and> planNotSilentPeriodList [] D = [(0, D)]
       \<and> adjustNotSilentPeriodList (planNotSilentPeriodList [] D) = [(0, D)]"
proof -
  have p: "getSilentPeriodListFromSilenceDetectOutput output = Inr []"
    by (simp add: getSilentPeriodListFromSilenceDetectOutput_def assms(1))
  have k: "planNotSilentPeriodList [] D = [(0, D)]"
    using assms(2) by (simp add: planNotSilentPeriodList_def)
  have a: "adjustNotSilentPeriodList [(0, D)] = [(0, D)]"
    by (simp add: adjustNotSilentPeriodList_def adjustPeriod_def)
  show ?thesis using p k a by simp
qed

theorem no_markers_keep_whole_witness:
  "matchAll (str ''size=N/A time=00:00:10.00 bitrate=N/A speed= 512x\<newline>'') = []
   \<and> 10 > minimumNotSilentDuration
   \<and> getSilentPeriodListFromSilenceDetectOutput
        (str ''size=N/A time=00:00:10.00 bitrate=N/A speed= 512x\<newline>'') = Inr []
   \<and> adjustNotSilentPeriodList (planNotSilentPeriodList [] 10) = [(0, 10)]"
proof -
  have h1: "matchAll (str ''size=N/A time=00:00:10.00 bitrate=N/A speed= 512x\<newline>'') = []"
    by (simp add: scan_defs)
  have h2: "10 > minimumNotSilentDuration" by (simp add: minimumNotSilentDuration_def)
  show ?thesis using no_markers_keep_whole [OF h1 h2] h1 h2 by blast
qed

section \<open>The concatenation listing file (lines 105-110)\<close>

text \<open>
  \<^verbatim>\<open>filePath.replace(/'/, "'\\''")\<close> has a regular expression without the \<^verbatim>\<open>g\<close>
  flag: it replaces the first single quote (code unit 39) only, by the four code units
  quote, backslash, quote, quote. \<^verbatim>\<open>join('\\n')\<close> puts a line feed between the lines.
\<close>

fun replaceFirst :: "nat \<Rightarrow> jstring \<Rightarrow> jstring \<Rightarrow> jstring" where
  "replaceFirst q replacement [] = []"
| "replaceFirst q replacement (c # cs) =
     (if c = q then replacement @ cs else c # replaceFirst q replacement cs)"

fun join :: "jstring \<Rightarrow> jstring list \<Rightarrow> jstring" where
  "join separator [] = []"
| "join separator [x] = x"
| "join separator (x # y # xs) = x @ separator @ join separator (y # xs)"

definition concatFileLine :: "jstring \<Rightarrow> jstring" where
  "concatFileLine filePath =
     str ''file '' @ [39] @ replaceFirst 39 [39, 92, 39, 39] filePath @ [39]"

definition concatFileContent :: "jstring list \<Rightarrow> jstring" where
  "concatFileContent chunkedVideoFilePathList =
     join [10] (map concatFileLine chunkedVideoFilePathList)"

text \<open>
  The listing file in the words of the specification: every single quote of a path is
  replaced by the escape sequence.
\<close>

definition escapeQuotes :: "jstring \<Rightarrow> jstring" where
  "escapeQuotes filePath =
     concat (map (\<lambda>c. if c = 39 then [39, 92, 39, 39] else [c]) filePath)"

definition listingFile :: "jstring list \<Rightarrow> jstring" where
  "listingFile paths =
     join [10] (map (\<lambda>p. str ''file '' @ [39] @ escapeQuotes p @ [39]) paths)"

section \<open>Single-file processing (\<^verbatim>\<open>removeSilentFromVideoFile\<close>, lines 59-116)\<close>

text \<open>
  The effects of lines 95-115 are the commands invoked, in order: creating the chunk
  directory, one extraction per keep interval, writing the listing file, the
  concatenation into the output file, and removing the chunk directory. A command that
  fails raises, and nothing after it runs. The functions of the \<^verbatim>\<open>path\<close> module, the
  conversion of a number to a string and the failure of a command belong to the
  platform. The analysis of lines 69-78 has already returned: its results, the duration
  and the output of the silence detection, are arguments.
\<close>

datatype command =
    Mkdirp jstring
  | Extract real real jstring jstring
  | OutputFile jstring jstring
  | Concat jstring jstring
  | Remove jstring

record platform =
  pathJoin :: "jstring \<Rightarrow> jstring \<Rightarrow> jstring"
  pathExtname :: "jstring \<Rightarrow> jstring"
  pathBasename :: "jstring \<Rightarrow> jstring \<Rightarrow> jstring"
  pathDirname :: "jstring \<Rightarrow> jstring"
  numberToString :: "real \<Rightarrow> jstring"
  failure :: "command \<Rightarrow> error option"

record outcome =
  invoked :: "command list"
  raised :: "error option"

fun execute :: "platform \<Rightarrow> command list \<Rightarrow> outcome" where
  "execute pf [] = \<lparr>invoked = [], raised = None\<rparr>"
| "execute pf (c # cs) =
     (case failure pf c of
        Some e \<Rightarrow> \<lparr>invoked = [c], raised = Some e\<rparr>
      | None \<Rightarrow> (let r = execute pf cs in r\<lparr>invoked := c # invoked r\<rparr>))"

definition chunkedVideoFilePath :: "platform \<Rightarrow> jstring \<Rightarrow> jstring \<Rightarrow> period \<Rightarrow> jstring" where
  "chunkedVideoFilePath pf chunkedVideoDirname outputVideoExtname p =
     (case p of (startPosition, endPosition) \<Rightarrow>
        pathJoin pf chunkedVideoDirname
          (numberToString pf startPosition @ str ''-'' @ numberToString pf endPosition
             @ outputVideoExtname))"

definition renderCommands :: "platform \<Rightarrow> jstring \<Rightarrow> jstring \<Rightarrow> period list \<Rightarrow> command list" where
  "renderCommands pf videoPath outputVideoPath notSilentPeriodList =
     (let outputVideoExtname = pathExtname pf outputVideoPath;
          chunkedVideoDirname = outputVideoPath @ str ''.tmp''
      in if length notSilentPeriodList > 0
         then
           (let chunkedVideoFilePathList =
                  map (chunkedVideoFilePath pf chunkedVideoDirname outputVideoExtname)
                    notSilentPeriodList;
                concatFilePath = pathJoin pf chunkedVideoDirname (str ''filelist.txt'')
            in [Mkdirp chunkedVideoDirname]
               @ map (\<lambda>p. Extract (fst p) (snd p - fst p) videoPath
                          (chunkedVideoFilePath pf chunkedVideoDirname outputVideoExtname p))
                   notSilentPeriodList
               @ [OutputFile concatFilePath (concatFileContent chunkedVideoFilePathList),
                  Concat concatFilePath outputVideoPath,
                  Remove chunkedVideoDirname])
         else [])"

definition removeSilentFromVideoFile ::
  "platform \<Rightarrow> jstring \<Rightarrow> jstring option \<Rightarrow> real \<Rightarrow> jstring \<Rightarrow> outcome" where
  "removeSilentFromVideoFile pf videoPath outputVideoPathArg videoDuration silenceDetectOutput =
     (let videoExtname = pathExtname pf videoPath;
          videoBasename = pathBasename pf videoPath videoExtname;
          videoDirname = pathDirname pf videoPath;
          defaultPath = pathJoin pf videoDirname
                          (videoBasename @ str ''.silenceremoved'' @ videoExtname);
          outputVideoPath =
            (case outputVideoPathArg of
               None \<Rightarrow> defaultPath
             | Some p \<Rightarrow> if p = [] then defaultPath else p)
      in case getSilentPeriodListFromSilenceDetectOutput silenceDetectOutput of
           Inl e \<Rightarrow> \<lparr>invoked = [], raised = Some e\<rparr>
         | Inr silentPeriodList \<Rightarrow>
             execute pf
               (renderCommands pf videoPath outputVideoPath
                  (adjustNotSilentPeriodList
                     (planNotSilentPeriodList silentPeriodList videoDuration))))"

section \<open>The command-line dispatcher (\<^verbatim>\<open>main\<close>, lines 14-25)\<close>

text \<open>
  \<open>main argv\<close> is \<^verbatim>\<open>main(...argv)\<close>: the first element is \<^verbatim>\<open>mode\<close>, the others are
  \<^verbatim>\<open>args\<close>, and \<^verbatim>\<open>arguments\<close> is the whole list. The result is the trace of the
  warnings logged and of the operation called with its argument list.
\<close>

datatype event =
    ConsoleError jstring "jstring option"
  | CallRemoveSilentFromVideoFile "jstring list"
  | CallRemoveSilentFromVideoDirectory "jstring list"

function main :: "jstring list \<Rightarrow> event list" where
  "main [] = ConsoleError (str ''Unknown mode, fallback file mode: '') None # main [str ''file'']"
| "main (mode # args) =
     (if mode = str ''file'' then [CallRemoveSilentFromVideoFile args]
      else if mode = str ''dir'' then [CallRemoveSilentFromVideoDirectory args]
      else ConsoleError (str ''Unknown mode, fallback file mode: '') (Some mode)
             # main (str ''file'' # mode # args))"
  by pat_completeness auto
termination
  by (relation "measure (\<lambda>argv. case argv of [] \<Rightarrow> 1
        | mode # args \<Rightarrow> if mode = str ''file'' \<or> mode = str ''dir'' then 0 else 1)") auto

section \<open>Properties of the listing file, of single-file processing and of the dispatcher\<close>

text \<open>
  Claim C7. The listing file has one line \<^verbatim>\<open>file '<escaped-path>'\<close> per chunk, in
  chunk order, with every single quote of a path escaped. The code escapes the first
  single quote of a path only: for the chunk paths \<^verbatim>\<open>it's tom's.mp4.tmp/0-2.mp4\<close> and
  \<^verbatim>\<open>d\<close> the second quote of the first path is left as it is, and the content differs
  from the listing file of the specification.
\<close>

theorem listing_escapes_first_quote_only:
  "concatFileContent
     [str ''it'' @ [39] @ str ''s tom'' @ [39] @ str ''s.mp4.tmp/0-2.mp4'', str ''d'']
     = str ''file '' @ [39] @ str ''it'' @ [39, 92, 39, 39] @ str ''s tom'' @ [39]
         @ str ''s.mp4.tmp/0-2.mp4'' @ [39] @ [10] @ str ''file '' @ [39] @ str ''d'' @ [39]
   \<and> listingFile
     [str ''it'' @ [39] @ str ''s tom'' @ [39] @ str ''s.mp4.tmp/0-2.mp4'', str ''d'']
     = str ''file '' @ [39] @ str ''it'' @ [39, 92, 39, 39] @ str ''s tom'' @ [39, 92, 39, 39]
         @ str ''s.mp4.tmp/0-2.mp4'' @ [39] @ [10] @ str ''file '' @ [39] @ str ''d'' @ [39]
   \<and> concatFileContent
     [str ''it'' @ [39] @ str ''s tom'' @ [39] @ str ''s.mp4.tmp/0-2.mp4'', str ''d'']
     \<noteq> listingFile
     [str ''it'' @ [39] @ str ''s tom'' @ [39] @ str ''s.mp4.tmp/0-2.mp4'', str ''d'']"
  by (simp add: concatFileContent_def concatFileLine_def listingFile_def escapeQuotes_def str_def)

text \<open>The two agree on paths with at most one single quote.\<close>

lemma replaceFirst_escapeQuotes:
  "count_list filePath 39 \<le> 1 \<Longrightarrow> replaceFirst 39 [39, 92, 39, 39] filePath = escapeQuotes filePath"
proof (induction filePath)
  case Nil
  show ?case by (simp add: escapeQuotes_def)
next
  case (Cons c cs)
  show ?case
  proof (cases "c = 39")
    case True
    then have "count_list cs 39 = 0" using Cons.prems by simp
    then have "39 \<notin> set cs" by (simp add: count_list_0_iff)
    then have "escapeQuotes cs = cs"
      unfolding escapeQuotes_def by (induction cs) auto
    then show ?thesis using True by (simp add: escapeQuotes_def)
  next
    case False
    then show ?thesis using Cons by (simp add: escapeQuotes_def)
  qed
qed

lemma plan_empty_iff:
  "planNotSilentPeriodList sil D = []
     \<longleftrightarrow> (\<forall>g \<in> set (gaps 0 sil D). snd g - fst g \<le> minimumNotSilentDuration)"
  unfolding plan_eq_cursorPlan cursorPlan_filter
  by (auto simp: filter_empty_conv not_less)

text \<open>
  Claim C8. When the planner yields no keep interval for a file, which is the case
  exactly when no gap between the silences, before the first or after the last one
  exceeds the minimum keep duration, single-file processing invokes no command at all
  (no extraction, no concatenation, no file written) and raises no error.
\<close>

theorem no_keep_interval_no_work:
  assumes "getSilentPeriodListFromSilenceDetectOutput silenceDetectOutput = Inr sil"
      and "planNotSilentPeriodList sil D = []"
  shows "(\<forall>g \<in> set (gaps 0 sil D). snd g - fst g \<le> minimumNotSilentDuration)
       \<and> removeSilentFromVideoFile pf videoPath outputVideoPathArg D silenceDetectOutput
           = \<lparr>invoked = [], raised = None\<rparr>"
proof -
  have g: "\<forall>g \<in> set (gaps 0 sil D). snd g - fst g \<le> minimumNotSilentDuration"
    using assms(2) by (simp add: plan_empty_iff)
  have a: "adjustNotSilentPeriodList [] = []" by (simp add: adjustNotSilentPeriodList_def)
  have "removeSilentFromVideoFile pf videoPath outputVideoPathArg D silenceDetectOutput
           = \<lparr>invoked = [], raised = None\<rparr>"
    unfolding removeSilentFromVideoFile_def Let_def assms(1)
    by (simp add: assms(2) a renderCommands_def)
  then show ?thesis using g by simp
qed

theorem no_keep_interval_no_work_witness:
  "getSilentPeriodListFromSilenceDetectOutput
      (str ''[silencedetect @ 0x5581] silence_start: 0.5\<newline>[silencedetect @ 0x5581] silence_end: 9.75 | silence_duration: 9.25\<newline>'')
     = Inr [(0.5, 9.75)]
   \<and> planNotSilentPeriodList [(0.5, 9.75)] 10 = []
   \<and> removeSilentFromVideoFile
        \<lparr>pathJoin = (\<lambda>a b. a @ [47] @ b), pathExtname = (\<lambda>p. str ''.mp4''),
         pathBasename = (\<lambda>p e. p), pathDirname = (\<lambda>p. str ''.''),
         numberToString = (\<lambda>r. []), failure = (\<lambda>c. None)\<rparr>
        (str ''talk.mp4'') None 10
        (str ''[silencedetect @ 0x5581] silence_start: 0.5\<newline>[silencedetect @ 0x5581] silence_end: 9.75 | silence_duration: 9.25\<newline>'')
     = \<lparr>invoked = [], raised = None\<rparr>"
proof -
  have m: "matchAll (str ''[silencedetect @ 0x5581] silence_start: 0.5\<newline>[silencedetect @ 0x5581] silence_end: 9.75 | silence_duration: 9.25\<newline>'')
     = [(str ''start'', str ''0.5''), (str ''end'', str ''9.75'')]"
    by (simp add: scan_defs)
  have h1: "getSilentPeriodListFromSilenceDetectOutput
      (str ''[silencedetect @ 0x5581] silence_start: 0.5\<newline>[silencedetect @ 0x5581] silence_end: 9.75 | silence_duration: 9.25\<newline>'')
     = Inr [(0.5, 9.75)]"
    unfolding getSilentPeriodListFromSilenceDetectOutput_def m
    by (simp add: parseStep_def Let_def parseFloat_def digitsValue_def str_def isDigit_def)
  have h2: "planNotSilentPeriodList [(0.5, 9.75)] 10 = []"
    by (simp add: planNotSilentPeriodList_def planStep_def minimumNotSilentDuration_def)
  show ?thesis using no_keep_interval_no_work [OF h1 h2] h1 h2 by simp
qed

text \<open>
  Claim C9. For a mode token other than \<^verbatim>\<open>file\<close> and \<^verbatim>\<open>dir\<close>, the dispatcher logs a
  warning and calls the file operation with the whole original argument list, so the
  mode token is its first argument, the input path.
\<close>

theorem unknown_mode_falls_back_to_file:
  assumes "mode \<noteq> str ''file''" and "mode \<noteq> str ''dir''"
  shows "main (mode # args)
           = [ConsoleError (str ''Unknown mode, fallback file mode: '') (Some mode),
              CallRemoveSilentFromVideoFile (mode # args)]"
  using assms by simp

theorem unknown_mode_falls_back_to_file_witness:
  "str ''movie.mp4'' \<noteq> str ''file'' \<and> str ''movie.mp4'' \<noteq> str ''dir''
   \<and> main [str ''movie.mp4'', str ''out.mp4'']
       = [ConsoleError (str ''Unknown mode, fallback file mode: '') (Some (str ''movie.mp4'')),
          CallRemoveSilentFromVideoFile [str ''movie.mp4'', str ''out.mp4'']]"
proof -
  have h1: "str ''movie.mp4'' \<noteq> str ''file''" and h2: "str ''movie.mp4'' \<noteq> str ''dir''"
    by (simp_all add: str_def)
  show ?thesis using unknown_mode_falls_back_to_file [OF h1 h2, of "[str ''out.mp4'']"] h1 h2 by simp
qed

end
